theory Spec2Isabelle
  imports Complex_Main "HOL-Library.Multiset" "HOL-Library.Char_ord" "HOL-Library.List_Lexorder"
begin

section \<open>github-post: correlating a stream of test2json events\<close>

text \<open>
  The development embeds \<^verbatim>\<open>listFailures\<close> and \<^verbatim>\<open>genSlowTestsReport\<close> of
  \<^verbatim>\<open>pkg/cmd/github-post\<close>. Go strings are byte strings (\<open>string\<close>), Go maps are
  partial functions, every panic, \<^verbatim>\<open>log.Fatal\<close> and error return is a value of
  \<open>error\<close>. A \<^verbatim>\<open>float64\<close> duration is a real number: comparisons are exact,
  while the rounding of \<open>+\<close>, \<open>-\<close> and \<open>*\<close> is not represented.
\<close>

subsection \<open>Library functions used by the program\<close>

text \<open>\<^verbatim>\<open>strings.HasPrefix\<close>, \<^verbatim>\<open>strings.Contains\<close>, \<^verbatim>\<open>strings.TrimPrefix\<close>.\<close>

fun HasPrefix :: "string \<Rightarrow> string \<Rightarrow> bool" where
  "HasPrefix s [] = True"
| "HasPrefix [] (p # ps) = False"
| "HasPrefix (c # s) (p # ps) = (c = p \<and> HasPrefix s ps)"

fun Contains :: "string \<Rightarrow> string \<Rightarrow> bool" where
  "Contains [] sub = HasPrefix [] sub"
| "Contains (c # s) sub = (HasPrefix (c # s) sub \<or> Contains s sub)"

definition TrimPrefix :: "string \<Rightarrow> string \<Rightarrow> string" where
  "TrimPrefix s p = (if HasPrefix s p then drop (length p) s else s)"

text \<open>
  \<^verbatim>\<open>strings.SplitN(s, "/", 2)\<close>: the whole string when it has no separator (also for
  the empty string), otherwise the part before the first separator and the rest.
\<close>

definition SplitN_slash_2 :: "string \<Rightarrow> string list" where
  "SplitN_slash_2 s =
     (if CHR ''/'' \<in> set s
      then [takeWhile (\<lambda>c. c \<noteq> CHR ''/'') s, tl (dropWhile (\<lambda>c. c \<noteq> CHR ''/'') s)]
      else [s])"

subsection \<open>Events, reports and errors\<close>

text \<open>
  \<^verbatim>\<open>time.Time\<close> is a count of nanoseconds from the zero time; \<^verbatim>\<open>Time.Sub\<close> saturates at
  the range of a 64-bit \<^verbatim>\<open>Duration\<close>, and \<^verbatim>\<open>Duration.Seconds\<close> divides by \<open>10\<^sup>9\<close>.
\<close>

type_synonym time = int

definition Time_Sub :: "time \<Rightarrow> time \<Rightarrow> int" where
  "Time_Sub t u = max (- (2 ^ 63)) (min (2 ^ 63 - 1) (t - u))"

definition Seconds :: "int \<Rightarrow> real" where
  "Seconds d = real_of_int d / 1000000000"

record testEvent =
  Action :: string
  Test :: string
  Output :: string
  Time :: time
  Elapsed :: real

definition zeroEvent :: testEvent where
  "zeroEvent = \<lparr>Action = [], Test = [], Output = [], Time = 0, Elapsed = 0\<rparr>"

record report =
  title :: string
  packageName :: string
  testName :: string
  message :: string
  authorEmail :: string

datatype error =
    PkgEnvNotSet
  | DecodeError
  | PanicTimeoutButPassed testEvent
  | FatalParseFloat string
  | FatalTimeUnit string
  | PanicIndexOutOfRange
  | PostFailed

subsection \<open>The timeout message and its pattern\<close>

definition timeoutMsg :: string where
  "timeoutMsg = ''panic: test timed out after''"

definition stressMarker :: string where
  "stressMarker = ''-exec '' @ [CHR 0x27] @ ''stress '' @ [CHR 0x27]"

definition shortTestFilterSecs :: real where
  "shortTestFilterSecs = 0.5"

definition isDigit :: "char \<Rightarrow> bool" where
  "isDigit c = (c \<in> set ''0123456789'')"

text \<open>
  The pattern is \<^verbatim>\<open>panic: test timed out after (\d*(?:\.\d*)?)(.)\<close>. A greedy
  quantifier tries its longest repetition first and gives characters back one at a
  time; \<open>greedy f k\<close> tries \<open>f k\<close>, \<open>f (k - 1)\<close>, ..., \<open>f 0\<close> and keeps the first success.
\<close>

fun greedy :: "(nat \<Rightarrow> 'a option) \<Rightarrow> nat \<Rightarrow> 'a option" where
  "greedy f 0 = f 0"
| "greedy f (Suc k) = (case f (Suc k) of Some r \<Rightarrow> Some r | None \<Rightarrow> greedy f k)"

text \<open>
  The last group \<^verbatim>\<open>(.)\<close>: one character that is not a newline. Of a character of
  several bytes the first byte is kept; it differs from \<open>m\<close> and \<open>s\<close> as the whole
  character does.
\<close>

definition anyChar :: "string \<Rightarrow> string option" where
  "anyChar s = (case s of [] \<Rightarrow> None | c # _ \<Rightarrow> if c = CHR 0x0A then None else Some [c])"

text \<open>
  \<open>matchFraction a s\<close>: the text \<open>a\<close> is what \<^verbatim>\<open>\d*\<close> has consumed and \<open>s\<close> is what follows.
  The optional group \<^verbatim>\<open>(?:\.\d*)?\<close> is tried first (with its own greedy digits), then
  skipped.
\<close>

definition matchFraction :: "string \<Rightarrow> string \<Rightarrow> (string \<times> string) option" where
  "matchFraction a s =
     (case (case s of
              [] \<Rightarrow> None
            | c # t \<Rightarrow>
                if c = CHR ''.''
                then greedy (\<lambda>j. map_option (\<lambda>u. (a @ ''.'' @ take j t, u)) (anyChar (drop j t)))
                       (length (takeWhile isDigit t))
                else None) of
        Some r \<Rightarrow> Some r
      | None \<Rightarrow> map_option (\<lambda>u. (a, u)) (anyChar s))"

definition matchGroups :: "string \<Rightarrow> (string \<times> string) option" where
  "matchGroups s =
     greedy (\<lambda>k. matchFraction (take k s) (drop k s)) (length (takeWhile isDigit s))"

text \<open>
  \<^verbatim>\<open>re.FindStringSubmatch\<close>: the leftmost position at which the pattern matches; the
  result is the pair of the two groups.
\<close>

fun FindStringSubmatch :: "string \<Rightarrow> (string \<times> string) option" where
  "FindStringSubmatch [] = None"
| "FindStringSubmatch (c # s) =
     (case (if HasPrefix (c # s) (timeoutMsg @ '' '')
            then matchGroups (drop (length (timeoutMsg @ '' '')) (c # s)) else None) of
        Some g \<Rightarrow> Some g
      | None \<Rightarrow> FindStringSubmatch s)"

text \<open>
  \<^verbatim>\<open>strconv.ParseFloat(s, 64)\<close> on the strings the first group can capture (digits with
  an optional point and more digits): a syntax error when there is no digit at all, a
  range error when the value rounds beyond the largest \<^verbatim>\<open>float64\<close>.
\<close>

definition digitVal :: "char \<Rightarrow> nat" where
  "digitVal c = of_char c - 48"

definition decimalVal :: "string \<Rightarrow> nat" where
  "decimalVal ds = foldl (\<lambda>n c. 10 * n + digitVal c) 0 ds"

definition float64Overflow :: real where
  "float64Overflow = 2 ^ 1024 - 2 ^ 970"

definition ParseFloat :: "string \<Rightarrow> real option" where
  "ParseFloat s =
     (let ip = takeWhile isDigit s;
          r = dropWhile isDigit s;
          fp = (case r of [] \<Rightarrow> [] | c # t \<Rightarrow> t);
          v = real (decimalVal ip) + real (decimalVal fp) / 10 ^ length fp
      in if (case r of [] \<Rightarrow> False | c # t \<Rightarrow> c \<noteq> CHR ''.'' \<or> \<not> list_all isDigit t) then None
         else if ip = [] \<and> fp = [] then None
         else if float64Overflow \<le> v then None
         else Some v)"

subsection \<open>Run state\<close>

text \<open>
  The local variables of \<^verbatim>\<open>listFailures\<close> that live across loop iterations. \<open>logged\<close>
  collects what the loop and the end-of-stream step hand to \<^verbatim>\<open>log.Printf\<close>.
\<close>

record state =
  packageOutput :: string
  outstandingOutput :: "string \<rightharpoonup> testEvent list"
  failures :: "string \<rightharpoonup> testEvent list"
  slowPassingTests :: "testEvent list"
  slowFailingTests :: "testEvent list"
  init :: bool
  trustTimestamps :: bool
  elapsedTotalSec :: real
  timedOutTestName :: string
  timedOutEvent :: testEvent
  curTestStart :: time
  lastTestName :: string
  lastEvent :: testEvent
  logged :: "string list"

definition initState :: state where
  "initState = \<lparr>packageOutput = [], outstandingOutput = Map.empty, failures = Map.empty,
     slowPassingTests = [], slowFailingTests = [], init = True, trustTimestamps = True,
     elapsedTotalSec = 0, timedOutTestName = [], timedOutEvent = zeroEvent, curTestStart = 0,
     lastTestName = [], lastEvent = zeroEvent, logged = []\<rparr>"

text \<open>Reading a missing key of a Go map of slices gives the nil slice.\<close>

definition lookupEvents :: "(string \<rightharpoonup> testEvent list) \<Rightarrow> string \<Rightarrow> testEvent list" where
  "lookupEvents m k = (case m k of None \<Rightarrow> [] | Some es \<Rightarrow> es)"

subsection \<open>Duration Reconciler\<close>

text \<open>
  The elapsed time written into a timeout event. With trusted timestamps it is the time
  since the current test started. Otherwise it is parsed from the message, and what
  the tests seen so far have taken is subtracted. The first component of the result is
  the diagnostic logged, if any.
\<close>

definition timeoutElapsed :: "state \<Rightarrow> testEvent \<Rightarrow> error + (string list \<times> real)" where
  "timeoutElapsed st te =
     (if trustTimestamps st then Inr ([], Seconds (Time_Sub (Time te) (curTestStart st)))
      else case FindStringSubmatch (Output te) of
             None \<Rightarrow> Inr ([''failed to parse timeout message: '' @ Output te], - 1)
           | Some (num, unit) \<Rightarrow>
               (case ParseFloat num of
                  None \<Rightarrow> Inl (FatalParseFloat num)
                | Some dur \<Rightarrow>
                    if unit = ''m'' then Inr ([], dur * 60 - elapsedTotalSec st)
                    else if unit \<noteq> ''s'' then Inl (FatalTimeUnit (Output te))
                    else Inr ([], dur - elapsedTotalSec st)))"

subsection \<open>Correlator: one iteration of the event loop\<close>

text \<open>The bookkeeping done for every event before the switch on its action.\<close>

definition preamble :: "state \<Rightarrow> testEvent \<Rightarrow> state" where
  "preamble st te =
     (let st1 = st\<lparr>lastEvent := te\<rparr>;
          st2 = (if Test te \<noteq> [] then st1\<lparr>init := False\<rparr> else st1);
          st3 = (if init st2 \<and> Contains (Output te) stressMarker
                 then st2\<lparr>trustTimestamps := False\<rparr> else st2)
      in if timedOutTestName st3 = [] \<and> 0 < Elapsed te \<and> length (SplitN_slash_2 (Test te)) = 1
         then st3\<lparr>elapsedTotalSec := elapsedTotalSec st3 + Elapsed te\<rparr> else st3)"

text \<open>The event as the switch sees it: a timed-out test's own elapsed time is replaced.\<close>

definition adjusted :: "state \<Rightarrow> testEvent \<Rightarrow> testEvent" where
  "adjusted st te =
     (if timedOutTestName st = Test te \<and> Elapsed te \<noteq> 0
      then te\<lparr>Elapsed := Elapsed (timedOutEvent st)\<rparr> else te)"

definition onRun :: "state \<Rightarrow> testEvent \<Rightarrow> state" where
  "onRun st te =
     (let st1 = st\<lparr>lastTestName := Test te\<rparr>
      in if trustTimestamps st1 then st1\<lparr>curTestStart := Time te\<rparr> else st1)"

definition onOutput :: "state \<Rightarrow> testEvent \<Rightarrow> error + state" where
  "onOutput st te =
     (let st1 = st\<lparr>outstandingOutput :=
                     (outstandingOutput st)(Test te \<mapsto> lookupEvents (outstandingOutput st) (Test te) @ [te])\<rparr>
      in if Contains (Output te) timeoutMsg
         then (case timeoutElapsed st1 te of
                 Inl e \<Rightarrow> Inl e
               | Inr (msgs, el) \<Rightarrow>
                   Inr (st1\<lparr>timedOutTestName := Test te,
                            timedOutEvent := te\<lparr>Elapsed := el\<rparr>,
                            logged := logged st1 @ msgs\<rparr>))
         else Inr st1)"

definition onPassSkip :: "state \<Rightarrow> testEvent \<Rightarrow> error + state" where
  "onPassSkip st te =
     (if timedOutTestName st \<noteq> [] then Inl (PanicTimeoutButPassed te)
      else let st1 = st\<lparr>outstandingOutput := (outstandingOutput st)(Test te := None)\<rparr>
           in if shortTestFilterSecs < Elapsed te \<and> \<not> Contains (Test te) ''/''
              then Inr (st1\<lparr>slowPassingTests := slowPassingTests st1 @ [te]\<rparr>)
              else Inr st1)"

definition onFail :: "state \<Rightarrow> testEvent \<Rightarrow> state" where
  "onFail st te =
     (let st1 = (if \<not> Contains (Test te) ''/'' \<or> timedOutTestName st = Test te
                 then st\<lparr>slowFailingTests := slowFailingTests st @ [te]\<rparr> else st);
          st2 = (if timedOutTestName st1 \<noteq> Test te
                 then st1\<lparr>failures := (failures st1)(Test te \<mapsto> lookupEvents (outstandingOutput st1) (Test te))\<rparr>
                 else st1)
      in st2\<lparr>outstandingOutput := (outstandingOutput st2)(Test te := None)\<rparr>)"

definition step :: "state \<Rightarrow> testEvent \<Rightarrow> error + state" where
  "step st ev =
     (let st1 = preamble st ev;
          te = adjusted st1 ev
      in if Test te \<noteq> []
         then (if Action te = ''run'' then Inr (onRun st1 te)
               else if Action te = ''output'' then onOutput st1 te
               else if Action te = ''pass'' \<or> Action te = ''skip'' then onPassSkip st1 te
               else if Action te = ''fail'' then Inr (onFail st1 te)
               else Inr st1)
         else if Action te = ''output''
         then Inr (st1\<lparr>packageOutput := packageOutput st1 @ Output te\<rparr>)
         else Inr st1)"

text \<open>The loop: events are consumed in order until one of them aborts the run.\<close>

fun runEvents :: "state \<Rightarrow> testEvent list \<Rightarrow> error + state" where
  "runEvents st [] = Inr st"
| "runEvents st (te # tes) = (case step st te of Inl e \<Rightarrow> Inl e | Inr st' \<Rightarrow> runEvents st' tes)"

subsection \<open>End-of-stream reconciliation\<close>

definition reconcile :: "state \<Rightarrow> state" where
  "reconcile st =
     (if timedOutTestName st \<noteq> []
      then (if outstandingOutput st (timedOutTestName st) \<noteq> None
            then st\<lparr>slowFailingTests := slowFailingTests st @ [timedOutEvent st],
                    outstandingOutput := (outstandingOutput st)(timedOutTestName st := None)\<rparr>
            else st)
      else (if outstandingOutput st (lastTestName st) \<noteq> None
            then st\<lparr>logged := logged st @
                      [''found outstanding output. Considering last test failed: '' @ lastTestName st],
                    failures := (failures st)(lastTestName st \<mapsto>
                                  lookupEvents (outstandingOutput st) (lastTestName st))\<rparr>
            else st))"

subsection \<open>Failure Consolidator\<close>

text \<open>
  One iteration of the \<^verbatim>\<open>range\<close> loop over \<open>failures\<close>, for the key \<open>test\<close>. A key
  that is no longer in the map is not visited. \<open>consolidate ks\<close> visits the keys in the
  order \<open>ks\<close>; Go leaves that order open.
\<close>

definition consolidateStep :: "string \<Rightarrow> (string \<rightharpoonup> testEvent list) \<Rightarrow> (string \<rightharpoonup> testEvent list)" where
  "consolidateStep test m =
     (case m test of
        None \<Rightarrow> m
      | Some testEvents \<Rightarrow>
          (case SplitN_slash_2 test of
             [parentTest, subTest] \<Rightarrow>
               (m(parentTest \<mapsto> lookupEvents m parentTest @ testEvents))(test := None)
           | _ \<Rightarrow> m))"

definition consolidate :: "string list \<Rightarrow> (string \<rightharpoonup> testEvent list) \<Rightarrow> (string \<rightharpoonup> testEvent list)" where
  "consolidate ks m = fold consolidateStep ks m"

subsection \<open>Slow Test Ranker\<close>

text \<open>\<^verbatim>\<open>%.2f\<close>: two decimals, rounded to nearest, ties to even.\<close>

definition roundHalfEven :: "real \<Rightarrow> int" where
  "roundHalfEven y =
     (let n = \<lfloor>y\<rfloor>; r = y - of_int n
      in if r < 1 / 2 then n else if 1 / 2 < r then n + 1 else if even n then n else n + 1)"

definition digitChar :: "nat \<Rightarrow> char" where
  "digitChar d = ''0123456789'' ! d"

fun decimalString :: "nat \<Rightarrow> string" where
  "decimalString n = (if n < 10 then [digitChar n] else decimalString (n div 10) @ [digitChar (n mod 10)])"

definition fmt_2f :: "real \<Rightarrow> string" where
  "fmt_2f x =
     (let n = nat (roundHalfEven (\<bar>x\<bar> * 100))
      in (if x < 0 then ''-'' else []) @ decimalString (n div 100) @ ''.'' @
         [digitChar (n div 10 mod 10), digitChar (n mod 10)])"

definition slowLine :: "testEvent \<Rightarrow> string" where
  "slowLine te = Test te @ '' - '' @ fmt_2f (Elapsed te) @ ''s'' @ [CHR 0x0A]"

text \<open>The loop \<^verbatim>\<open>for i, te := range tests { if i == 20 { break }; ... }\<close> writing to the builder \<open>b\<close>.\<close>

fun writeEntries :: "nat \<Rightarrow> testEvent list \<Rightarrow> string \<Rightarrow> string" where
  "writeEntries i [] b = b"
| "writeEntries i (te # tes) b = (if i = 20 then b else writeEntries (Suc i) tes (b @ slowLine te))"

definition genSlowTestsReport :: "testEvent list \<Rightarrow> testEvent list \<Rightarrow> string" where
  "genSlowTestsReport slowPassing slowFailing =
     (let b1 = ''Slow failing tests:'' @ [CHR 0x0A];
          b2 = writeEntries 0 slowFailing b1;
          b3 = (if length slowFailing = 0 then b2 @ ''<none>'' @ [CHR 0x0A] else b2);
          b4 = b3 @ [CHR 0x0A] @ ''Slow passing tests:'' @ [CHR 0x0A];
          b5 = writeEntries 0 slowPassing b4
      in if length slowPassing = 0 then b5 @ ''<none>'' @ [CHR 0x0A] else b5)"

subsection \<open>Report Emitter and Timeout Culprit Resolver\<close>

text \<open>
  What \<^verbatim>\<open>listFailures\<close> takes from outside: the \<^verbatim>\<open>PKG\<close> environment variable, the
  constant \<^verbatim>\<open>issues.CockroachPkgPrefix\<close>, the posting function \<open>f\<close> (\<open>True\<close> when it
  returns an error), the author lookup (the empty string when it fails), the
  permutation \<^verbatim>\<open>sort.Slice\<close> computes (it is not stable), and the order in which
  \<^verbatim>\<open>range\<close> visits the keys of the failures.
\<close>

record env =
  pkgEnv :: "string option"
  CockroachPkgPrefix :: string
  f :: "report \<Rightarrow> bool"
  getAuthorEmail :: "string \<Rightarrow> string \<Rightarrow> string"
  sortSlice :: "testEvent list \<Rightarrow> testEvent list"
  rangeOrder :: "(string \<rightharpoonup> testEvent list) \<Rightarrow> string list"

text \<open>The contract of \<^verbatim>\<open>sort.Slice\<close> with the comparison \<^verbatim>\<open>xs[i].Elapsed > xs[j].Elapsed\<close>.\<close>

definition sortsDescending :: "(testEvent list \<Rightarrow> testEvent list) \<Rightarrow> bool" where
  "sortsDescending srt =
     (\<forall>xs. mset (srt xs) = mset xs \<and> sorted_wrt (\<lambda>a b. Elapsed b \<le> Elapsed a) (srt xs))"

definition failureReport :: "env \<Rightarrow> string \<Rightarrow> (string \<rightharpoonup> testEvent list) \<Rightarrow> string \<Rightarrow> report" where
  "failureReport e pkg m test =
     \<lparr>title = TrimPrefix pkg (CockroachPkgPrefix e) @ '': '' @ test @ '' failed under stress'',
      packageName = pkg, testName = test,
      message = concat (map Output (lookupEvents m test)),
      authorEmail = getAuthorEmail e pkg test\<rparr>"

definition packageFailedReport :: "env \<Rightarrow> string \<Rightarrow> state \<Rightarrow> report" where
  "packageFailedReport e pkg st =
     \<lparr>title = TrimPrefix pkg (CockroachPkgPrefix e) @ '': package failed under stress'',
      packageName = pkg, testName = ''(unknown)'', message = packageOutput st, authorEmail = []\<rparr>"

text \<open>The reports of the first stage, in the order in which they are posted.\<close>

definition failureReports :: "env \<Rightarrow> string \<Rightarrow> state \<Rightarrow> report list" where
  "failureReports e pkg st =
     (if Action (lastEvent st) = ''fail'' \<and> dom (failures st) = {} \<and> timedOutTestName st = []
      then [packageFailedReport e pkg st]
      else let m = consolidate (rangeOrder e (failures st)) (failures st)
           in map (failureReport e pkg m) (sorted_list_of_set (dom m)))"

text \<open>Posting stops at the first error; the result is the calls made and whether one failed.\<close>

fun postAll :: "(report \<Rightarrow> bool) \<Rightarrow> report list \<Rightarrow> report list \<times> bool" where
  "postAll p [] = ([], False)"
| "postAll p (r # rs) =
     (if p r then ([r], True) else (case postAll p rs of (ps, b) \<Rightarrow> (r # ps, b)))"

definition culpritReport :: "env \<Rightarrow> string \<Rightarrow> string \<Rightarrow> string \<Rightarrow> report" where
  "culpritReport e pkg test rep =
     \<lparr>title = TrimPrefix pkg (CockroachPkgPrefix e) @ '': '' @ test @ '' timed out under stress'',
      packageName = pkg, testName = test, message = rep, authorEmail = getAuthorEmail e pkg test\<rparr>"

definition packageTimeoutReport :: "env \<Rightarrow> string \<Rightarrow> string \<Rightarrow> report" where
  "packageTimeoutReport e pkg rep =
     \<lparr>title = TrimPrefix pkg (CockroachPkgPrefix e) @ '': package timed out under stress'',
      packageName = pkg, testName = ''(unknown)'', message = rep,
      authorEmail = ''andreimatei1@gmail.com''\<rparr>"

text \<open>
  The timeout stage on the sorted lists: \<^verbatim>\<open>slowFailingTests[0]\<close> panics on an empty
  list.
\<close>

definition timeoutReport ::
    "env \<Rightarrow> string \<Rightarrow> string \<Rightarrow> testEvent list \<Rightarrow> testEvent list \<Rightarrow> string \<Rightarrow> error + report" where
  "timeoutReport e pkg timedOut slowPassing slowFailing rep =
     (case slowFailing of
        [] \<Rightarrow> Inl PanicIndexOutOfRange
      | f0 # _ \<Rightarrow>
          (let slowest = (if 0 < length slowPassing \<and> Elapsed f0 < Elapsed (hd slowPassing)
                          then hd slowPassing else f0)
           in if timedOut = Test slowest then Inr (culpritReport e pkg timedOut rep)
              else Inr (packageTimeoutReport e pkg rep)))"

text \<open>
  \<^verbatim>\<open>listFailures\<close> on an input that decodes to the events \<open>tes\<close> and then ends (or, with
  \<open>bad\<close>, fails to decode). The result holds the calls made to \<open>f\<close> in order, the text
  handed to \<^verbatim>\<open>writeSlowTestsReport\<close> if the run got that far, and the error or panic that
  ended the run (\<open>None\<close> when \<^verbatim>\<open>nil\<close> is returned).
\<close>

record result =
  posted :: "report list"
  written :: "string option"
  failure :: "error option"

definition listFailures :: "env \<Rightarrow> testEvent list \<Rightarrow> bool \<Rightarrow> result" where
  "listFailures e tes bad =
     (case pkgEnv e of
        None \<Rightarrow> \<lparr>posted = [], written = None, failure = Some PkgEnvNotSet\<rparr>
      | Some pkg \<Rightarrow>
          (case runEvents initState tes of
             Inl err \<Rightarrow> \<lparr>posted = [], written = None, failure = Some err\<rparr>
           | Inr st0 \<Rightarrow>
               if bad then \<lparr>posted = [], written = None, failure = Some DecodeError\<rparr>
               else
                 (let st = reconcile st0;
                      (ps, failed) = postAll (f e) (failureReports e pkg st)
                  in if failed then \<lparr>posted = ps, written = None, failure = Some PostFailed\<rparr>
                     else
                       (let sp = sortSlice e (slowPassingTests st);
                            sf = sortSlice e (slowFailingTests st);
                            rep = genSlowTestsReport sp sf
                        in if timedOutTestName st = []
                           then \<lparr>posted = ps, written = Some rep, failure = None\<rparr>
                           else (case timeoutReport e pkg (timedOutTestName st) sp sf rep of
                                   Inl err \<Rightarrow> \<lparr>posted = ps, written = Some rep, failure = Some err\<rparr>
                                 | Inr r \<Rightarrow>
                                     \<lparr>posted = ps @ [r], written = Some rep,
                                      failure = (if f e r then Some PostFailed else None)\<rparr>)))))"

subsection \<open>Notions used to state the properties\<close>

text \<open>The events that record a timeout: output of a test that contains the timeout message.\<close>

definition isTimeoutOutput :: "testEvent \<Rightarrow> bool" where
  "isTimeoutOutput te = (Test te \<noteq> [] \<and> Action te = ''output'' \<and> Contains (Output te) timeoutMsg)"

text \<open>The events up to and including the first one that records a timeout.\<close>

fun untilTimeout :: "testEvent list \<Rightarrow> testEvent list" where
  "untilTimeout [] = []"
| "untilTimeout (te # tes) = te # (if isTimeoutOutput te then [] else untilTimeout tes)"

text \<open>
  The events whose elapsed time the loop adds up, and those the specification names
  (it also asks for a non-empty test name).
\<close>

definition counted :: "testEvent \<Rightarrow> bool" where
  "counted te = (CHR ''/'' \<notin> set (Test te) \<and> 0 < Elapsed te)"

definition countedNonEmpty :: "testEvent \<Rightarrow> bool" where
  "countedNonEmpty te = (Test te \<noteq> [] \<and> CHR ''/'' \<notin> set (Test te) \<and> 0 < Elapsed te)"

text \<open>A component of the run state after the loop has consumed \<open>tes\<close> from the start.\<close>

definition afterEvents :: "(state \<Rightarrow> 'a) \<Rightarrow> testEvent list \<Rightarrow> 'a option" where
  "afterEvents g tes = (case runEvents initState tes of Inl _ \<Rightarrow> None | Inr st \<Rightarrow> Some (g st))"

definition noFailEvents :: "testEvent list \<Rightarrow> bool" where
  "noFailEvents tes = list_all (\<lambda>te. Action te \<noteq> ''fail'') tes"

definition noTimeoutMarker :: "testEvent list \<Rightarrow> bool" where
  "noTimeoutMarker tes = list_all (\<lambda>te. \<not> Contains (Output te) timeoutMsg) tes"

text \<open>At the end of the stream, output of the test started last is still outstanding.\<close>

definition lastTestOutstanding :: "testEvent list \<Rightarrow> bool" where
  "lastTestOutstanding tes =
     (case runEvents initState tes of
        Inl _ \<Rightarrow> False
      | Inr st \<Rightarrow> outstandingOutput st (lastTestName st) \<noteq> None)"

text \<open>The slowest entry: the head of the sorted list with the larger elapsed time.\<close>

definition slowestEntry :: "testEvent list \<Rightarrow> testEvent list \<Rightarrow> testEvent" where
  "slowestEntry slowPassing slowFailing =
     (if slowPassing \<noteq> [] \<and> Elapsed (hd slowFailing) < Elapsed (hd slowPassing)
      then hd slowPassing else hd slowFailing)"



text \<open>Sample inputs: an event without timestamp, and an environment in which nothing fails.\<close>

definition mkEvent :: "string \<Rightarrow> string \<Rightarrow> string \<Rightarrow> real \<Rightarrow> testEvent" where
  "mkEvent a t out el = \<lparr>Action = a, Test = t, Output = out, Time = 0, Elapsed = el\<rparr>"

definition sampleEnv :: env where
  "sampleEnv =
     \<lparr>pkgEnv = Some ''github.com/cockroachdb/cockroach/pkg/kv'',
      CockroachPkgPrefix = ''github.com/cockroachdb/cockroach/pkg/'',
      f = (\<lambda>r. False),
      getAuthorEmail = (\<lambda>pkg test. []),
      sortSlice = sort_key (\<lambda>te. - Elapsed te),
      rangeOrder = (\<lambda>m. sorted_list_of_set (dom m))\<rparr>"

definition stressState :: "real \<Rightarrow> state" where
  "stressState secs = initState\<lparr>init := False, trustTimestamps := False, elapsedTotalSec := secs\<rparr>"

section \<open>Helper lemmas\<close>

lemma Contains_single [simp]: "Contains s [c] \<longleftrightarrow> c \<in> set s"
  by (induction s) auto

lemma length_SplitN [simp]: "length (SplitN_slash_2 s) = Suc 0 \<longleftrightarrow> CHR ''/'' \<notin> set s"
  by (simp add: SplitN_slash_2_def)

lemma preamble_simps [simp]:
  "elapsedTotalSec (preamble st te) =
     (if timedOutTestName st = [] \<and> counted te then elapsedTotalSec st + Elapsed te
      else elapsedTotalSec st)"
  "timedOutTestName (preamble st te) = timedOutTestName st"
  "timedOutEvent (preamble st te) = timedOutEvent st"
  "outstandingOutput (preamble st te) = outstandingOutput st"
  "failures (preamble st te) = failures st"
  "slowPassingTests (preamble st te) = slowPassingTests st"
  "slowFailingTests (preamble st te) = slowFailingTests st"
  "lastEvent (preamble st te) = te"
  "lastTestName (preamble st te) = lastTestName st"
  "logged (preamble st te) = logged st"
  by (simp_all add: preamble_def Let_def counted_def)

lemma adjusted_simps [simp]:
  "Test (adjusted st te) = Test te"
  "Action (adjusted st te) = Action te"
  "Output (adjusted st te) = Output te"
  by (simp_all add: adjusted_def)

lemmas handler_defs = onRun_def onOutput_def onPassSkip_def onFail_def

lemma step_elapsedTotalSec:
  "step st te = Inr st' \<Longrightarrow>
   elapsedTotalSec st' =
     (if timedOutTestName st = [] \<and> counted te then elapsedTotalSec st + Elapsed te
      else elapsedTotalSec st)"
  unfolding step_def Let_def handler_defs
  by (simp split: if_splits sum.splits prod.splits; force)

lemma step_timedOutTestName:
  "step st te = Inr st' \<Longrightarrow>
   timedOutTestName st' = (if isTimeoutOutput te then Test te else timedOutTestName st)"
  unfolding step_def Let_def handler_defs isTimeoutOutput_def
  by (simp split: if_splits sum.splits prod.splits; force)

lemma runEvents_Cons_Inr:
  "runEvents st (te # tes) = Inr st' \<Longrightarrow> \<exists>st1. step st te = Inr st1 \<and> runEvents st1 tes = Inr st'"
  by (simp split: sum.splits)

lemma runEvents_total_after_timeout:
  "timedOutTestName st \<noteq> [] \<Longrightarrow> runEvents st tes = Inr st' \<Longrightarrow>
   elapsedTotalSec st' = elapsedTotalSec st"
proof (induction tes arbitrary: st)
  case Nil
  then show ?case by simp
next
  case (Cons te tes)
  from runEvents_Cons_Inr [OF Cons.prems(2)]
  obtain st1 where s: "step st te = Inr st1" and r: "runEvents st1 tes = Inr st'"
    by blast
  have n: "timedOutTestName st1 \<noteq> []"
    unfolding step_timedOutTestName [OF s] using Cons.prems(1) by (simp add: isTimeoutOutput_def)
  have "elapsedTotalSec st' = elapsedTotalSec st1" by (rule Cons.IH [OF n r])
  also have "\<dots> = elapsedTotalSec st"
    unfolding step_elapsedTotalSec [OF s] using Cons.prems(1) by simp
  finally show ?case .
qed

lemma runEvents_total:
  "timedOutTestName st = [] \<Longrightarrow> runEvents st tes = Inr st' \<Longrightarrow>
   elapsedTotalSec st' =
     elapsedTotalSec st + sum_list (map Elapsed (filter counted (untilTimeout tes)))"
proof (induction tes arbitrary: st)
  case Nil
  then show ?case by simp
next
  case (Cons te tes)
  from runEvents_Cons_Inr [OF Cons.prems(2)]
  obtain st1 where s: "step st te = Inr st1" and r: "runEvents st1 tes = Inr st'"
    by blast
  have t1: "elapsedTotalSec st1 = (if counted te then elapsedTotalSec st + Elapsed te else elapsedTotalSec st)"
    unfolding step_elapsedTotalSec [OF s] using Cons.prems(1) by simp
  show ?case
  proof (cases "isTimeoutOutput te")
    case True
    then have n: "timedOutTestName st1 \<noteq> []"
      unfolding step_timedOutTestName [OF s] by (simp add: isTimeoutOutput_def)
    have "elapsedTotalSec st' = elapsedTotalSec st1"
      by (rule runEvents_total_after_timeout [OF n r])
    then show ?thesis unfolding t1 using True by simp
  next
    case False
    then have n: "timedOutTestName st1 = []"
      unfolding step_timedOutTestName [OF s] using Cons.prems(1) by simp
    have "elapsedTotalSec st' =
        elapsedTotalSec st1 + sum_list (map Elapsed (filter counted (untilTimeout tes)))"
      by (rule Cons.IH [OF n r])
    then show ?thesis unfolding t1 using False by simp
  qed
qed


section \<open>The claims\<close>

lemmas eval_defs = afterEvents_def mkEvent_def initState_def zeroEvent_def step_def preamble_def
  adjusted_def handler_defs Let_def stressMarker_def timeoutMsg_def SplitN_slash_2_def
  lookupEvents_def timeoutElapsed_def Time_Sub_def Seconds_def isTimeoutOutput_def counted_def
  countedNonEmpty_def shortTestFilterSecs_def

text \<open>
  Claim C8, as the code has it: at every point of the stream \<open>elapsedTotalSec\<close> is the sum
  of \<open>Elapsed\<close> over the events seen so far, up to and including the first one that records
  a timeout, whose test name contains no \<open>/\<close> and whose \<open>Elapsed\<close> is positive. Events with
  an empty test name are among them: the sum is taken before the test name is looked at.
\<close>

theorem elapsedTotalSec_is_sum:
  "runEvents initState tes = Inr st \<Longrightarrow>
   elapsedTotalSec st = sum_list (map Elapsed (filter counted (untilTimeout tes)))"
  using runEvents_total [of initState tes st] by (simp add: initState_def)

text \<open>
  An instance: a test of one second and the package's own pass event of 1.5 seconds.
\<close>

theorem elapsedTotalSec_is_sum_witness:
  "\<exists>st. runEvents initState
          [mkEvent ''run'' ''A'' [] 0, mkEvent ''pass'' ''A'' [] 1, mkEvent ''pass'' [] [] (3 / 2)] = Inr st
        \<and> elapsedTotalSec st = 5 / 2"
proof -
  obtain st where h: "runEvents initState
          [mkEvent ''run'' ''A'' [] 0, mkEvent ''pass'' ''A'' [] 1, mkEvent ''pass'' [] [] (3 / 2)] = Inr st"
    by (simp add: eval_defs)
  have "elapsedTotalSec st = 5 / 2"
    unfolding elapsedTotalSec_is_sum [OF h] by (simp add: eval_defs)
  with h show ?thesis by blast
qed

text \<open>
  Claim C8 as stated fails: a package-level event (empty test name) with positive \<open>Elapsed\<close>
  is added, although the sum over events with a non-empty test name is 0.
\<close>

theorem empty_test_name_counted:
  "afterEvents elapsedTotalSec [mkEvent ''pass'' [] [] (3 / 2)] = Some (3 / 2) \<and>
   sum_list (map Elapsed (filter countedNonEmpty (untilTimeout [mkEvent ''pass'' [] [] (3 / 2)]))) = 0"
  by (simp add: eval_defs)




text \<open>
  The passing list does obey the filter: each of its entries is a pass or skip event of a
  top-level test that took longer than \<open>shortTestFilterSecs\<close>.
\<close>

lemma step_slowPassingTests:
  "step st te = Inr st' \<Longrightarrow>
   \<forall>x\<in>set (slowPassingTests st). shortTestFilterSecs < Elapsed x \<and> CHR ''/'' \<notin> set (Test x) \<and>
      (Action x = ''pass'' \<or> Action x = ''skip'') \<Longrightarrow>
   \<forall>x\<in>set (slowPassingTests st'). shortTestFilterSecs < Elapsed x \<and> CHR ''/'' \<notin> set (Test x) \<and>
      (Action x = ''pass'' \<or> Action x = ''skip'')"
  unfolding step_def Let_def handler_defs
  apply (simp split: if_splits sum.splits prod.splits)
  apply (auto split: if_splits)
  done

lemma slow_passing_entries:
  "runEvents st tes = Inr st' \<Longrightarrow>
   \<forall>x\<in>set (slowPassingTests st). shortTestFilterSecs < Elapsed x \<and> CHR ''/'' \<notin> set (Test x) \<and>
      (Action x = ''pass'' \<or> Action x = ''skip'') \<Longrightarrow>
   \<forall>x\<in>set (slowPassingTests st'). shortTestFilterSecs < Elapsed x \<and> CHR ''/'' \<notin> set (Test x) \<and>
      (Action x = ''pass'' \<or> Action x = ''skip'')"
proof (induction tes arbitrary: st)
  case Nil
  then show ?case by simp
next
  case (Cons te tes)
  from runEvents_Cons_Inr [OF Cons.prems(1)]
  obtain st1 where s: "step st te = Inr st1" and r: "runEvents st1 tes = Inr st'"
    by blast
  show ?case by (rule Cons.IH [OF r step_slowPassingTests [OF s Cons.prems(2)]])
qed

text \<open>
  Claim C3 at the input \<open>run A, fail A (0.1s)\<close>: the fail event is appended to
  \<open>slowFailingTests\<close> although 0.1s does not exceed \<open>shortTestFilterSecs\<close>; only the
  pass/skip branch applies the filter.
\<close>

theorem short_fail_is_listed:
  "afterEvents slowFailingTests [mkEvent ''run'' ''A'' [] 0, mkEvent ''fail'' ''A'' [] (1 / 10)]
     = Some [mkEvent ''fail'' ''A'' [] (1 / 10)] \<and>
   \<not> shortTestFilterSecs < 1 / 10"
  by (simp add: eval_defs)


lemma consolidateStep_no_slash:
  "\<forall>k\<in>dom m. CHR ''/'' \<notin> set k \<Longrightarrow> consolidateStep t m = m"
  by (auto simp: consolidateStep_def SplitN_slash_2_def split: option.splits)

lemma consolidateStep_slash_keys:
  "{k \<in> dom (consolidateStep t m). CHR ''/'' \<in> set k} \<subseteq> {k \<in> dom m. CHR ''/'' \<in> set k} - {t}"
proof (cases "m t")
  case None
  then show ?thesis by (auto simp: consolidateStep_def)
next
  case (Some es)
  show ?thesis
  proof (cases "CHR ''/'' \<in> set t")
    case True
    have "CHR ''/'' \<notin> set (takeWhile (\<lambda>c. c \<noteq> CHR ''/'') t)"
      by (auto dest: set_takeWhileD)
    then show ?thesis using Some True
      by (auto simp: consolidateStep_def SplitN_slash_2_def split: if_splits)
  next
    case False
    then show ?thesis using Some by (auto simp: consolidateStep_def SplitN_slash_2_def)
  qed
qed

lemma consolidate_slash_keys:
  "{k \<in> dom (consolidate ks m). CHR ''/'' \<in> set k} \<subseteq> {k \<in> dom m. CHR ''/'' \<in> set k} - set ks"
proof (induction ks arbitrary: m)
  case Nil
  then show ?case by (simp add: consolidate_def)
next
  case (Cons t ks)
  have "{k \<in> dom (consolidate (t # ks) m). CHR ''/'' \<in> set k}
        \<subseteq> {k \<in> dom (consolidateStep t m). CHR ''/'' \<in> set k} - set ks"
    using Cons.IH [of "consolidateStep t m"] by (simp add: consolidate_def)
  also have "\<dots> \<subseteq> ({k \<in> dom m. CHR ''/'' \<in> set k} - {t}) - set ks"
    using consolidateStep_slash_keys [of t m] by blast
  finally show ?case by auto
qed

lemma consolidate_no_slash:
  "\<forall>k\<in>dom m. CHR ''/'' \<notin> set k \<Longrightarrow> consolidate ks m = m"
  by (induction ks) (simp_all add: consolidate_def consolidateStep_no_slash)

text \<open>
  Claim C9: a consolidation pass (the keys are visited in any order \<open>ks\<close> that covers the
  map) leaves no key that contains \<open>/\<close>, and a second pass, in any order \<open>ks'\<close>, leaves
  the map unchanged.
\<close>

theorem consolidate_idempotent:
  "dom m \<subseteq> set ks \<Longrightarrow>
   (\<forall>k\<in>dom (consolidate ks m). CHR ''/'' \<notin> set k) \<and>
   consolidate ks' (consolidate ks m) = consolidate ks m"
proof -
  assume d: "dom m \<subseteq> set ks"
  have n: "\<forall>k\<in>dom (consolidate ks m). CHR ''/'' \<notin> set k"
    using consolidate_slash_keys [of ks m] d by blast
  then show ?thesis by (simp add: consolidate_no_slash)
qed

text \<open>
  An instance: two failed subtests of \<open>A\<close> and a failed test \<open>B\<close>.
\<close>

theorem consolidate_idempotent_witness:
  "consolidate [''A/x'', ''B'', ''A/y'']
     [''A/x'' \<mapsto> [mkEvent ''output'' ''A/x'' ''one'' 0],
      ''A/y'' \<mapsto> [mkEvent ''output'' ''A/y'' ''two'' 0],
      ''B'' \<mapsto> []]
   = [''A'' \<mapsto> [mkEvent ''output'' ''A/x'' ''one'' 0, mkEvent ''output'' ''A/y'' ''two'' 0],
      ''B'' \<mapsto> []]
   \<and> consolidate [''B'', ''A'']
        (consolidate [''A/x'', ''B'', ''A/y'']
           [''A/x'' \<mapsto> [mkEvent ''output'' ''A/x'' ''one'' 0],
            ''A/y'' \<mapsto> [mkEvent ''output'' ''A/y'' ''two'' 0],
            ''B'' \<mapsto> []])
      = consolidate [''A/x'', ''B'', ''A/y'']
           [''A/x'' \<mapsto> [mkEvent ''output'' ''A/x'' ''one'' 0],
            ''A/y'' \<mapsto> [mkEvent ''output'' ''A/y'' ''two'' 0],
            ''B'' \<mapsto> []]"
proof -
  have d: "dom [''A/x'' \<mapsto> [mkEvent ''output'' ''A/x'' ''one'' 0],
      ''A/y'' \<mapsto> [mkEvent ''output'' ''A/y'' ''two'' 0],
      ''B'' \<mapsto> []] \<subseteq> set [''A/x'', ''B'', ''A/y'']"
    by simp
  have e: "consolidate [''A/x'', ''B'', ''A/y'']
     [''A/x'' \<mapsto> [mkEvent ''output'' ''A/x'' ''one'' 0],
      ''A/y'' \<mapsto> [mkEvent ''output'' ''A/y'' ''two'' 0],
      ''B'' \<mapsto> []]
   = [''A'' \<mapsto> [mkEvent ''output'' ''A/x'' ''one'' 0, mkEvent ''output'' ''A/y'' ''two'' 0],
      ''B'' \<mapsto> []]"
    by (rule ext) (simp add: consolidate_def consolidateStep_def SplitN_slash_2_def lookupEvents_def)
  from consolidate_idempotent [OF d, of "[''B'', ''A'']"] e show ?thesis by blast
qed


lemma preamble_trustTimestamps:
  "\<not> trustTimestamps st \<Longrightarrow> \<not> trustTimestamps (preamble st te)"
  by (simp add: preamble_def Let_def)

lemma step_timeout_output:
  "isTimeoutOutput te \<Longrightarrow>
   step st te =
     (let st1 = (preamble st te)\<lparr>outstandingOutput :=
                  (outstandingOutput st)(Test te \<mapsto>
                     lookupEvents (outstandingOutput st) (Test te) @ [adjusted (preamble st te) te])\<rparr>
      in case timeoutElapsed st1 (adjusted (preamble st te) te) of
           Inl e \<Rightarrow> Inl e
         | Inr (msgs, el) \<Rightarrow>
             Inr (st1\<lparr>timedOutTestName := Test te,
                      timedOutEvent := (adjusted (preamble st te) te)\<lparr>Elapsed := el\<rparr>,
                      logged := logged st @ msgs\<rparr>))"
  by (simp add: isTimeoutOutput_def step_def onOutput_def Let_def split: sum.splits prod.splits)

text \<open>
  The pattern on a message of the usual shape: right after the timeout message and a blank
  come the digits \<open>ds\<close> and the unit \<open>u\<close>. The greedy match takes all the digits as the
  magnitude.
\<close>

lemma greedy_longest: "g k = Some r \<Longrightarrow> greedy g k = Some r"
  by (cases k) simp_all

lemma HasPrefix_append [simp]: "HasPrefix (p @ s) p"
  by (induction p) simp_all

lemma matchGroups_whole_number:
  assumes "list_all isDigit ds" and "\<not> isDigit u" and "u \<noteq> CHR ''.''" and "u \<noteq> CHR 0x0A"
  shows "matchGroups (ds @ u # rest) = Some (ds, [u])"
proof -
  have t: "takeWhile isDigit (ds @ u # rest) = ds"
    using assms(1,2) by (simp add: list_all_iff takeWhile_append2)
  have "matchFraction ds (u # rest) = Some (ds, [u])"
    using assms(3,4) by (simp add: matchFraction_def anyChar_def)
  then show ?thesis
    unfolding matchGroups_def t by (intro greedy_longest) simp
qed

lemma FindStringSubmatch_whole_number:
  assumes "list_all isDigit ds" and "\<not> isDigit u" and "u \<noteq> CHR ''.''" and "u \<noteq> CHR 0x0A"
  shows "FindStringSubmatch (timeoutMsg @ '' '' @ ds @ u # rest) = Some (ds, [u])"
proof -
  obtain c s where cs: "timeoutMsg @ '' '' @ ds @ u # rest = c # s"
    by (cases "timeoutMsg @ '' '' @ ds @ u # rest") simp_all
  have p: "HasPrefix (c # s) (timeoutMsg @ '' '')"
    using HasPrefix_append [of "timeoutMsg @ '' ''" "ds @ u # rest"] cs by simp
  have d: "drop (length (timeoutMsg @ '' '')) (c # s) = ds @ u # rest"
    using cs [symmetric] by simp
  show ?thesis
    unfolding cs FindStringSubmatch.simps using p d matchGroups_whole_number [OF assms, of rest]
    by simp
qed

lemma ParseFloat_whole_number:
  "list_all isDigit ds \<Longrightarrow> ds \<noteq> [] \<Longrightarrow> real (decimalVal ds) < float64Overflow \<Longrightarrow>
   ParseFloat ds = Some (real (decimalVal ds))"
proof -
  assume a: "list_all isDigit ds" and n: "ds \<noteq> []" and b: "real (decimalVal ds) < float64Overflow"
  from a have t: "takeWhile isDigit ds = ds" and d: "dropWhile isDigit ds = []"
    by (simp_all add: list_all_iff)
  show ?thesis
    using n b by (simp add: ParseFloat_def t d Let_def decimalVal_def)
qed

lemma reconciled_elapsed_whole_number:
  assumes "\<not> trustTimestamps st" and "list_all isDigit ds" and "ds \<noteq> []"
    and "real (decimalVal ds) < float64Overflow" and "u = CHR ''m'' \<or> u = CHR ''s''"
    and "Output te = timeoutMsg @ '' '' @ ds @ u # rest"
  shows "timeoutElapsed st te =
           Inr ([], (if u = CHR ''m'' then real (decimalVal ds) * 60 else real (decimalVal ds))
                      - elapsedTotalSec st)"
proof -
  from assms(5) have u: "\<not> isDigit u" "u \<noteq> CHR ''.''" "u \<noteq> CHR 0x0A"
    by (auto simp: isDigit_def)
  have m: "FindStringSubmatch (Output te) = Some (ds, [u])"
    unfolding assms(6) by (rule FindStringSubmatch_whole_number [OF assms(2) u])
  have p: "ParseFloat ds = Some (real (decimalVal ds))"
    by (rule ParseFloat_whole_number [OF assms(2,3,4)])
  show ?thesis
    using assms(1,5) by (auto simp: timeoutElapsed_def m p)
qed


lemmas match_defs = timeoutMsg_def matchGroups_def matchFraction_def anyChar_def isDigit_def
  ParseFloat_def decimalVal_def digitVal_def float64Overflow_def



text \<open>
  Claim C7, as the code has it: with untrusted timestamps, a timeout message that the pattern
  does not match is logged, the elapsed time is \<open>-1\<close> and the loop goes on. A message that
  the pattern matches ends the run when its magnitude is not a number (\<^verbatim>\<open>log.Fatal\<close>) or its
  unit is neither \<open>m\<close> nor \<open>s\<close> (\<^verbatim>\<open>log.Fatalf\<close>).
\<close>

theorem timeout_message_outcomes:
  "\<not> trustTimestamps st \<Longrightarrow> isTimeoutOutput te \<Longrightarrow>
   (case FindStringSubmatch (Output te) of
      None \<Rightarrow>
        (\<exists>st'. step st te = Inr st' \<and> Elapsed (timedOutEvent st') = - 1 \<and>
               logged st' = logged st @ [''failed to parse timeout message: '' @ Output te])
    | Some (num, unit) \<Rightarrow>
        (case ParseFloat num of
           None \<Rightarrow> step st te = Inl (FatalParseFloat num)
         | Some d \<Rightarrow>
             if unit = ''m'' \<or> unit = ''s'' then (\<exists>st'. step st te = Inr st')
             else step st te = Inl (FatalTimeUnit (Output te))))"
  using preamble_trustTimestamps [of st te]
  by (simp add: step_timeout_output timeoutElapsed_def Let_def split: option.splits prod.splits)

text \<open>
  An instance: the message ends right after \<^verbatim>\<open>after\<close>, so the pattern does not match.
\<close>

theorem timeout_message_outcomes_witness:
  "\<exists>st'. step (stressState 0) (mkEvent ''output'' ''A'' ''panic: test timed out after'' 0) = Inr st' \<and>
         Elapsed (timedOutEvent st') = - 1 \<and>
         logged st' = [''failed to parse timeout message: panic: test timed out after'']"
proof -
  have t: "\<not> trustTimestamps (stressState 0)"
    by (simp add: stressState_def)
  have i: "isTimeoutOutput (mkEvent ''output'' ''A'' ''panic: test timed out after'' 0)"
    by (simp add: isTimeoutOutput_def mkEvent_def timeoutMsg_def)
  have m: "FindStringSubmatch (Output (mkEvent ''output'' ''A'' ''panic: test timed out after'' 0)) = None"
    by (simp add: mkEvent_def match_defs)
  from timeout_message_outcomes [OF t i] m show ?thesis
    by (simp add: stressState_def initState_def mkEvent_def)
qed

text \<open>
  Claim C7 as stated fails: the unit \<open>h\<close> and a missing magnitude both end the run.
\<close>

theorem timeout_message_aborts:
  "step (stressState 0) (mkEvent ''output'' ''A'' ''panic: test timed out after 5h'' 0)
     = Inl (FatalTimeUnit ''panic: test timed out after 5h'') \<and>
   step (stressState 0) (mkEvent ''output'' ''A'' ''panic: test timed out after x'' 0)
     = Inl (FatalParseFloat [])"
  by (simp add: eval_defs stressState_def match_defs)




lemma sortsDescending_sort_key: "sortsDescending (sort_key (\<lambda>te. - Elapsed te))"
proof -
  have "sorted_wrt (\<lambda>a b. Elapsed b \<le> Elapsed a) (sort_key (\<lambda>te. - Elapsed te) xs)" for xs
    using sorted_sort_key [of "\<lambda>te. - Elapsed te" xs] by (simp add: sorted_map)
  then show ?thesis unfolding sortsDescending_def by auto
qed



lemmas post_defs = listFailures_def reconcile_def failureReports_def consolidate_def
  consolidateStep_def failureReport_def packageFailedReport_def culpritReport_def
  packageTimeoutReport_def timeoutReport_def TrimPrefix_def genSlowTestsReport_def slowLine_def
  fmt_2f_def roundHalfEven_def digitChar_def sampleEnv_def



text \<open>A recorded timeout keeps its test outstanding or has already put an entry in the failing list.\<close>

lemma step_timeout_entry:
  "step st te = Inr st' \<Longrightarrow>
   (timedOutTestName st \<noteq> [] \<longrightarrow>
      outstandingOutput st (timedOutTestName st) \<noteq> None \<or> slowFailingTests st \<noteq> []) \<Longrightarrow>
   (timedOutTestName st' \<noteq> [] \<longrightarrow>
      outstandingOutput st' (timedOutTestName st') \<noteq> None \<or> slowFailingTests st' \<noteq> [])"
  unfolding step_def Let_def handler_defs
  apply (simp split: if_splits sum.splits prod.splits)
  apply (auto split: if_splits)
  done

lemma runEvents_timeout_entry:
  "runEvents st tes = Inr st' \<Longrightarrow>
   (timedOutTestName st \<noteq> [] \<longrightarrow>
      outstandingOutput st (timedOutTestName st) \<noteq> None \<or> slowFailingTests st \<noteq> []) \<Longrightarrow>
   (timedOutTestName st' \<noteq> [] \<longrightarrow>
      outstandingOutput st' (timedOutTestName st') \<noteq> None \<or> slowFailingTests st' \<noteq> [])"
proof (induction tes arbitrary: st)
  case Nil
  then show ?case by simp
next
  case (Cons te tes)
  from runEvents_Cons_Inr [OF Cons.prems(1)]
  obtain st1 where s: "step st te = Inr st1" and r: "runEvents st1 tes = Inr st'"
    by blast
  show ?case by (rule Cons.IH [OF r step_timeout_entry [OF s Cons.prems(2)]])
qed

lemma reconcile_timedOutTestName [simp]: "timedOutTestName (reconcile st) = timedOutTestName st"
  by (simp add: reconcile_def)

lemma reconcile_failing_nonempty:
  assumes "runEvents initState tes = Inr st" and "timedOutTestName st \<noteq> []"
  shows "slowFailingTests (reconcile st) \<noteq> []"
proof -
  have "outstandingOutput st (timedOutTestName st) \<noteq> None \<or> slowFailingTests st \<noteq> []"
    using runEvents_timeout_entry [OF assms(1)] assms(2) by (simp add: initState_def)
  then show ?thesis using assms(2) by (auto simp: reconcile_def)
qed

lemma sortsDescending_nonempty:
  "sortsDescending srt \<Longrightarrow> xs \<noteq> [] \<Longrightarrow> srt xs \<noteq> []"
proof
  assume s: "sortsDescending srt" and n: "xs \<noteq> []" and e: "srt xs = []"
  from s have "mset (srt xs) = mset xs" by (simp add: sortsDescending_def)
  with e n show False by simp
qed


lemma timeoutReport_nonempty:
  "slowFailing \<noteq> [] \<Longrightarrow>
   timeoutReport e pkg t slowPassing slowFailing rep =
     Inr (if t = Test (slowestEntry slowPassing slowFailing) then culpritReport e pkg t rep
          else packageTimeoutReport e pkg rep)"
  by (cases slowFailing) (simp_all add: timeoutReport_def slowestEntry_def Let_def)


text \<open>
  Claim C4: when the loop has completed with a timeout on record, the sorted list of slow
  failing tests is not empty after the end-of-stream step, and the run never ends with the
  index panic of \<^verbatim>\<open>slowFailingTests[0]\<close>.
\<close>

theorem failing_list_nonempty_on_timeout:
  "sortsDescending (sortSlice e) \<Longrightarrow> runEvents initState tes = Inr st \<Longrightarrow>
   timedOutTestName st \<noteq> [] \<Longrightarrow>
   sortSlice e (slowFailingTests (reconcile st)) \<noteq> [] \<and>
   failure (listFailures e tes bad) \<noteq> Some PanicIndexOutOfRange"
proof -
  assume s: "sortsDescending (sortSlice e)" and r: "runEvents initState tes = Inr st"
    and t: "timedOutTestName st \<noteq> []"
  have n: "sortSlice e (slowFailingTests (reconcile st)) \<noteq> []"
    by (rule sortsDescending_nonempty [OF s reconcile_failing_nonempty [OF r t]])
  have "failure (listFailures e tes bad) \<noteq> Some PanicIndexOutOfRange"
    using r t by (simp add: listFailures_def Let_def timeoutReport_nonempty [OF n]
        split: option.splits prod.splits)
  with n show ?thesis by simp
qed

text \<open>
  An instance: the stream ends after the timeout message of \<open>A\<close>; no fail event arrives.
\<close>

theorem failing_list_nonempty_on_timeout_witness:
  "\<exists>st. runEvents initState
          [mkEvent ''run'' ''A'' [] 0,
           mkEvent ''output'' ''A'' ''panic: test timed out after 1s'' 0] = Inr st \<and>
        timedOutTestName st = ''A'' \<and>
        sortSlice sampleEnv (slowFailingTests (reconcile st)) \<noteq> [] \<and>
        failure (listFailures sampleEnv
          [mkEvent ''run'' ''A'' [] 0,
           mkEvent ''output'' ''A'' ''panic: test timed out after 1s'' 0] False)
          \<noteq> Some PanicIndexOutOfRange"
proof -
  obtain st where h: "runEvents initState
          [mkEvent ''run'' ''A'' [] 0,
           mkEvent ''output'' ''A'' ''panic: test timed out after 1s'' 0] = Inr st"
    and t: "timedOutTestName st = ''A''"
    by (simp add: eval_defs)
  have s: "sortsDescending (sortSlice sampleEnv)"
    by (simp add: sampleEnv_def sortsDescending_sort_key)
  from t have n: "timedOutTestName st \<noteq> []" by simp
  from failing_list_nonempty_on_timeout [OF s h n, of False] h t show ?thesis by blast
qed





lemma step_quiet:
  "step st te = Inr st' \<Longrightarrow> Action te \<noteq> ''fail'' \<Longrightarrow> \<not> Contains (Output te) timeoutMsg \<Longrightarrow>
   failures st = Map.empty \<and> timedOutTestName st = [] \<Longrightarrow>
   failures st' = Map.empty \<and> timedOutTestName st' = [] \<and> lastEvent st' = te"
  unfolding step_def Let_def handler_defs
  apply (simp split: if_splits)
  apply auto
  done

lemma runEvents_quiet:
  "runEvents st tes = Inr st' \<Longrightarrow> noFailEvents tes \<Longrightarrow> noTimeoutMarker tes \<Longrightarrow>
   failures st = Map.empty \<and> timedOutTestName st = [] \<and> Action (lastEvent st) \<noteq> ''fail'' \<Longrightarrow>
   failures st' = Map.empty \<and> timedOutTestName st' = [] \<and> Action (lastEvent st') \<noteq> ''fail''"
proof (induction tes arbitrary: st)
  case Nil
  then show ?case by simp
next
  case (Cons te tes)
  from runEvents_Cons_Inr [OF Cons.prems(1)]
  obtain st1 where s: "step st te = Inr st1" and r: "runEvents st1 tes = Inr st'"
    by blast
  from Cons.prems(2,3) have a: "Action te \<noteq> ''fail''" and c: "\<not> Contains (Output te) timeoutMsg"
    and nf: "noFailEvents tes" and nt: "noTimeoutMarker tes"
    by (simp_all add: noFailEvents_def noTimeoutMarker_def)
  from Cons.prems(4) have q: "failures st = Map.empty \<and> timedOutTestName st = []" by simp
  from step_quiet [OF s a c q] a
  have "failures st1 = Map.empty \<and> timedOutTestName st1 = [] \<and> Action (lastEvent st1) \<noteq> ''fail''"
    by simp
  then show ?case by (rule Cons.IH [OF r nf nt])
qed

lemma consolidate_empty [simp]: "consolidate ks Map.empty = Map.empty"
  by (simp add: consolidate_no_slash)

text \<open>
  Claim C1, as the code has it: a stream with no \<open>fail\<close> event and no timeout message, at
  whose end no output of the test started last is outstanding, makes no call to the posting
  function.
\<close>

theorem no_reports_without_failure:
  "noFailEvents tes \<Longrightarrow> noTimeoutMarker tes \<Longrightarrow> \<not> lastTestOutstanding tes \<Longrightarrow>
   posted (listFailures e tes bad) = []"
proof -
  assume nf: "noFailEvents tes" and nt: "noTimeoutMarker tes" and lo: "\<not> lastTestOutstanding tes"
  show ?thesis
  proof (cases "runEvents initState tes")
    case (Inl err)
    then show ?thesis by (simp add: listFailures_def split: option.splits)
  next
    case (Inr st)
    have i: "failures initState = Map.empty \<and> timedOutTestName initState = [] \<and>
             Action (lastEvent initState) \<noteq> ''fail''"
      by (simp add: initState_def zeroEvent_def)
    from runEvents_quiet [OF Inr nf nt i]
    have q: "failures st = Map.empty" "timedOutTestName st = []" "Action (lastEvent st) \<noteq> ''fail''"
      by simp_all
    from lo Inr have o: "outstandingOutput st (lastTestName st) = None"
      by (simp add: lastTestOutstanding_def)
    have rc: "reconcile st = st"
      using q(2) o by (simp add: reconcile_def)
    have fr: "failureReports e pkg st = []" for pkg
      using q by (simp add: failureReports_def)
    show ?thesis
      using Inr q(2) by (simp add: listFailures_def rc fr split: option.splits)
  qed
qed

text \<open>
  An instance: \<open>A\<close> runs, prints and passes.
\<close>

theorem no_reports_without_failure_witness:
  "posted (listFailures sampleEnv
     [mkEvent ''run'' ''A'' [] 0, mkEvent ''output'' ''A'' ''ok'' 0, mkEvent ''pass'' ''A'' [] (1 / 10)]
     False) = []"
proof -
  have nf: "noFailEvents
     [mkEvent ''run'' ''A'' [] 0, mkEvent ''output'' ''A'' ''ok'' 0, mkEvent ''pass'' ''A'' [] (1 / 10)]"
    by (simp add: noFailEvents_def mkEvent_def)
  have nt: "noTimeoutMarker
     [mkEvent ''run'' ''A'' [] 0, mkEvent ''output'' ''A'' ''ok'' 0, mkEvent ''pass'' ''A'' [] (1 / 10)]"
    by (simp add: noTimeoutMarker_def mkEvent_def timeoutMsg_def)
  have lo: "\<not> lastTestOutstanding
     [mkEvent ''run'' ''A'' [] 0, mkEvent ''output'' ''A'' ''ok'' 0, mkEvent ''pass'' ''A'' [] (1 / 10)]"
    by (simp add: lastTestOutstanding_def eval_defs)
  show ?thesis by (rule no_reports_without_failure [OF nf nt lo])
qed

text \<open>
  Claim C1 as stated fails: the stream \<open>run A, output A\<close> has no \<open>fail\<close> event, no timeout
  message and does not end in a \<open>fail\<close> event, yet \<open>A\<close> is considered failed and reported.
\<close>

theorem outstanding_last_test_reported:
  "noFailEvents [mkEvent ''run'' ''A'' [] 0, mkEvent ''output'' ''A'' ''x'' 0] \<and>
   noTimeoutMarker [mkEvent ''run'' ''A'' [] 0, mkEvent ''output'' ''A'' ''x'' 0] \<and>
   Action (last [mkEvent ''run'' ''A'' [] 0, mkEvent ''output'' ''A'' ''x'' 0]) \<noteq> ''fail'' \<and>
   posted (listFailures sampleEnv [mkEvent ''run'' ''A'' [] 0, mkEvent ''output'' ''A'' ''x'' 0] False)
   = [\<lparr>title = ''kv: A failed under stress'',
       packageName = ''github.com/cockroachdb/cockroach/pkg/kv'',
       testName = ''A'', message = ''x'', authorEmail = []\<rparr>]"
  by (simp add: noFailEvents_def noTimeoutMarker_def eval_defs post_defs)

end
